theory Spec2Isabelle
  imports Main "HOL-Library.Sublist"
begin

section \<open>Conversation context store and transcript parser of bot.py\<close>

text \<open>
  The theory embeds the four functions of \<^verbatim>\<open>bot.py\<close> that keep and read the per-user
  transcript: \<^verbatim>\<open>get_context\<close>, \<^verbatim>\<open>add_to_context\<close>, \<^verbatim>\<open>clear_user_context\<close> and
  \<^verbatim>\<open>parse_context_to_messages\<close>, together with the methods of Python's \<^verbatim>\<open>str\<close> they call.

  A Python string is modelled as a \<^typ>\<open>string\<close>; a character stands for a code point below
  256. The global dictionary \<^verbatim>\<open>user_contexts\<close> is a map from user ids to strings that every
  operation takes and returns. Each operation of the source runs under \<^verbatim>\<open>context_lock\<close> from
  its first to its last statement, so it is one atomic step on that map.
\<close>

subsection \<open>Methods of Python's str\<close>

text \<open>
  \<^verbatim>\<open>str.isspace\<close> for one character, on the code points below 256: tab, line feed, vertical
  tab, form feed, carriage return, the four separators 0x1C to 0x1F, space, next line (0x85)
  and no-break space (0xA0).
\<close>

definition isspace :: "char \<Rightarrow> bool" where
  "isspace c = (c \<in> set [CHR 0x09, CHR 0x0A, CHR 0x0B, CHR 0x0C, CHR 0x0D,
                          CHR 0x1C, CHR 0x1D, CHR 0x1E, CHR 0x1F, CHR 0x20,
                          CHR 0x85, CHR 0xA0])"

text \<open>\<^verbatim>\<open>s.strip()\<close>: the whitespace at both ends is removed.\<close>

definition strip :: "string \<Rightarrow> string" where
  "strip s = rev (dropWhile isspace (rev (dropWhile isspace s)))"

text \<open>\<^verbatim>\<open>s.startswith(p)\<close>.\<close>

definition startswith :: "string \<Rightarrow> string \<Rightarrow> bool" where
  "startswith s p = prefix p s"

text \<open>
  \<^verbatim>\<open>s.split(sep)\<close> for a non-empty separator: the occurrences of \<open>sep\<close> are found from the
  left, without overlap, and the pieces between them are returned; there is always at least
  one piece. (Python raises ValueError for an empty separator; the source passes the literals
  \<^verbatim>\<open>"\n\n"\<close> and \<^verbatim>\<open>"\n"\<close> only, and the model returns the string whole there.)
\<close>

fun split :: "string \<Rightarrow> string \<Rightarrow> string list" where
  "split sep [] = [[]]"
| "split sep (c # cs) =
     (if sep \<noteq> [] \<and> prefix sep (c # cs) then [] # split sep (drop (length sep - 1) cs)
      else (case split sep cs of [] \<Rightarrow> [[c]] | p # ps \<Rightarrow> (c # p) # ps))"

text \<open>
  \<^verbatim>\<open>s.split(sep, 1)\<close>: at most one split, at the first occurrence of \<open>sep\<close>; the result has
  two elements when \<open>sep\<close> occurs and is \<open>[s]\<close> otherwise. \<open>partition_first\<close> finds the first
  occurrence and returns what stands before and after it.
\<close>

fun partition_first :: "string \<Rightarrow> string \<Rightarrow> (string \<times> string) option" where
  "partition_first sep [] = None"
| "partition_first sep (c # cs) =
     (if sep \<noteq> [] \<and> prefix sep (c # cs) then Some ([], drop (length sep - 1) cs)
      else (case partition_first sep cs of None \<Rightarrow> None | Some (a, b) \<Rightarrow> Some (c # a, b)))"

definition split1 :: "string \<Rightarrow> string \<Rightarrow> string list" where
  "split1 sep s = (case partition_first sep s of None \<Rightarrow> [s] | Some (a, b) \<Rightarrow> [a, b])"

text \<open>
  \<^verbatim>\<open>s.replace(old, new)\<close> for a non-empty \<open>old\<close>: every occurrence of \<open>old\<close>, found from the
  left without overlap, is replaced by \<open>new\<close>.
\<close>

fun replace :: "string \<Rightarrow> string \<Rightarrow> string \<Rightarrow> string" where
  "replace old new [] = []"
| "replace old new (c # cs) =
     (if old \<noteq> [] \<and> prefix old (c # cs) then new @ replace old new (drop (length old - 1) cs)
      else c # replace old new cs)"

subsection \<open>The context table\<close>

type_synonym user_contexts = "int \<rightharpoonup> string"

text \<open>
  \<^verbatim>\<open>get_context\<close> returns the transcript of the user and the table, in which an absent user
  has been given the empty transcript.
\<close>

definition get_context :: "user_contexts \<Rightarrow> int \<Rightarrow> string \<times> user_contexts" where
  "get_context tbl user_id =
     (let tbl1 = (if user_id \<notin> dom tbl then tbl(user_id \<mapsto> []) else tbl)
      in (case tbl1 user_id of Some s \<Rightarrow> s | None \<Rightarrow> [], tbl1))"

text \<open>The block that \<^verbatim>\<open>add_to_context\<close> formats: \<^verbatim>\<open>f"role: {role}\n{content}\n\n"\<close>.\<close>

definition format_block :: "string \<Rightarrow> string \<Rightarrow> string" where
  "format_block role' content' = ''role: '' @ role' @ ''\<newline>'' @ content' @ ''\<newline>\<newline>''"

definition add_to_context :: "user_contexts \<Rightarrow> int \<Rightarrow> string \<Rightarrow> string \<Rightarrow> user_contexts" where
  "add_to_context tbl user_id role' content' =
     (let tbl1 = (if user_id \<notin> dom tbl then tbl(user_id \<mapsto> []) else tbl)
      in tbl1(user_id \<mapsto> (case tbl1 user_id of Some s \<Rightarrow> s | None \<Rightarrow> []) @ format_block role' content'))"

definition clear_user_context :: "user_contexts \<Rightarrow> int \<Rightarrow> bool \<times> user_contexts" where
  "clear_user_context tbl user_id =
     (if user_id \<in> dom tbl then (True, tbl(user_id \<mapsto> [])) else (False, tbl))"

subsection \<open>The transcript parser\<close>

record message =
  role :: string
  content :: string

text \<open>
  The body of the loop of \<^verbatim>\<open>parse_context_to_messages\<close> for one block: the record it appends
  to \<^verbatim>\<open>messages\<close>, or \<open>None\<close> when the block is passed over (by \<^verbatim>\<open>continue\<close> or by one of the
  three conditions failing).
\<close>

definition parse_block :: "string \<Rightarrow> message option" where
  "parse_block block =
     (if strip block = [] then None
      else
        let lines = split1 ''\<newline>'' (strip block) in
        if length lines \<ge> 2 then
          let role_line = lines ! 0;
              content' = (if length lines > 1 then lines ! 1 else [])
          in
            if startswith role_line ''role: '' then
              let role' = strip (replace ''role: '' [] role_line) in
              if role' \<in> set [''user'', ''assistant'']
              then Some \<lparr>role = role', content = content'\<rparr>
              else None
            else None
        else None)"

fun parse_blocks :: "string list \<Rightarrow> message list \<Rightarrow> message list" where
  "parse_blocks [] messages = messages"
| "parse_blocks (block # blocks) messages =
     parse_blocks blocks
       (case parse_block block of None \<Rightarrow> messages | Some m \<Rightarrow> messages @ [m])"

definition parse_context_to_messages :: "string \<Rightarrow> message list" where
  "parse_context_to_messages context_string =
     (if strip context_string = [] then []
      else parse_blocks (split ''\<newline>\<newline>'' (strip context_string)) [])"

subsection \<open>Sequences of calls on the table\<close>

text \<open>
  A call of one of the three operations of the store, and the table after a sequence of
  calls; the values the calls return are dropped here.
\<close>

datatype operation = Get int | Add int string string | Clear int

fun apply_operation :: "operation \<Rightarrow> user_contexts \<Rightarrow> user_contexts" where
  "apply_operation (Get u) tbl = snd (get_context tbl u)"
| "apply_operation (Add u r c) tbl = add_to_context tbl u r c"
| "apply_operation (Clear u) tbl = snd (clear_user_context tbl u)"

definition run :: "operation list \<Rightarrow> user_contexts \<Rightarrow> user_contexts" where
  "run ops tbl = fold apply_operation ops tbl"

text \<open>
  A well-formed blob is a sequence of zero or more complete blocks: a header line
  \<^verbatim>\<open>role: h\<close> (so \<open>h\<close> holds no line feed), a line feed, a content and the blank-line
  separator.
\<close>

inductive well_formed :: "string \<Rightarrow> bool" where
  wf_empty: "well_formed []"
| wf_block: "well_formed b \<Longrightarrow> CHR ''\<newline>'' \<notin> set h \<Longrightarrow>
             well_formed (b @ ''role: '' @ h @ ''\<newline>'' @ c @ ''\<newline>\<newline>'')"


subsection \<open>Records that survive the round trip\<close>

text \<open>
  The text of the block of a (role, content) pair without its separator, and the pairs
  whose block the parser reads back unchanged: the role is one of the two recognised tags,
  the content is not empty, holds no block separator, does not begin with a line feed and
  does not end with a whitespace character.
\<close>

definition block_text :: "string \<times> string \<Rightarrow> string" where
  "block_text p = ''role: '' @ fst p @ ''\<newline>'' @ snd p"

definition clean_record :: "string \<times> string \<Rightarrow> bool" where
  "clean_record p =
     (fst p \<in> {''user'', ''assistant''} \<and> snd p \<noteq> [] \<and> \<not> sublist ''\<newline>\<newline>'' (snd p)
      \<and> hd (snd p) \<noteq> CHR ''\<newline>'' \<and> \<not> isspace (last (snd p)))"

section \<open>The context store\<close>

text \<open>
  C7. For every user id, role string and content string, \<^verbatim>\<open>add_to_context\<close> leaves the user
  mapped to the former blob followed by exactly the block
  \<^verbatim>\<open>"role: " + role + "\n" + content + "\n\n"\<close>; for a user id that is not in the table the
  former blob is the empty string.
\<close>

theorem add_to_context_appends_block:
  "add_to_context tbl user_id r c user_id =
     Some ((case tbl user_id of None \<Rightarrow> [] | Some s \<Rightarrow> s)
           @ ''role: '' @ r @ ''\<newline>'' @ c @ ''\<newline>\<newline>'')"
  by (auto simp: add_to_context_def format_block_def Let_def split: option.splits)

text \<open>
  C4. \<^verbatim>\<open>clear_user_context\<close> on a user id with no entry returns false and returns the table
  as it was, so no entry is created; on the table it returns, \<^verbatim>\<open>get_context\<close> for that id
  returns the empty string and \<^verbatim>\<open>clear_user_context\<close> for that id returns false again.
  On a user id with a non-empty transcript it returns true and leaves the id mapped to the
  empty string; the entry stays in the table.
\<close>

theorem clear_user_context_semantics:
  "(tbl uid = None \<longrightarrow>
      clear_user_context tbl uid = (False, tbl)
      \<and> fst (get_context (snd (clear_user_context tbl uid)) uid) = []
      \<and> fst (clear_user_context (snd (clear_user_context tbl uid)) uid) = False)
   \<and> (tbl uid = Some s \<and> s \<noteq> [] \<longrightarrow>
      clear_user_context tbl uid = (True, tbl(uid \<mapsto> []))
      \<and> snd (clear_user_context tbl uid) uid = Some [])"
  by (auto simp: clear_user_context_def get_context_def Let_def)

theorem clear_user_context_semantics_witness:
  "(Map.empty :: user_contexts) 7 = None
   \<and> clear_user_context Map.empty 7 = (False, Map.empty)
   \<and> fst (get_context (snd (clear_user_context Map.empty 7)) 7) = []
   \<and> fst (clear_user_context (snd (clear_user_context Map.empty 7)) 7) = False
   \<and> [7 \<mapsto> ''role: user\<newline>hi\<newline>\<newline>''] (7::int) = Some ''role: user\<newline>hi\<newline>\<newline>''
   \<and> ''role: user\<newline>hi\<newline>\<newline>'' \<noteq> []
   \<and> clear_user_context [7 \<mapsto> ''role: user\<newline>hi\<newline>\<newline>''] 7 = (True, [7 \<mapsto> []])
   \<and> snd (clear_user_context [7 \<mapsto> ''role: user\<newline>hi\<newline>\<newline>''] 7) 7 = Some []"
  using clear_user_context_semantics [of Map.empty 7]
    clear_user_context_semantics [of "[7 \<mapsto> ''role: user\<newline>hi\<newline>\<newline>'']" 7
      "''role: user\<newline>hi\<newline>\<newline>''"]
  by (simp add: get_context_def)

text \<open>
  \<^verbatim>\<open>get_context\<close> does create the entry of an unknown user: a \<^verbatim>\<open>clear_user_context\<close> that
  follows a \<^verbatim>\<open>get_context\<close> for the same id returns true.
\<close>

lemma clear_after_get:
  "fst (clear_user_context (snd (get_context tbl uid)) uid) = True"
  by (auto simp: clear_user_context_def get_context_def Let_def)

text \<open>
  C8. Isolation between users: for two distinct user ids \<open>a\<close> and \<open>b\<close>, each of the three
  operations called with \<open>a\<close> leaves the entry of \<open>b\<close> as it was (absent, or present with the
  same blob), and what the call returns for \<open>a\<close> and the entry it leaves for \<open>a\<close> are the
  same whatever the entry \<open>e\<close> of \<open>b\<close> is.
\<close>

theorem user_isolation:
  "a \<noteq> b \<Longrightarrow>
     snd (get_context tbl a) b = tbl b
   \<and> add_to_context tbl a r c b = tbl b
   \<and> snd (clear_user_context tbl a) b = tbl b
   \<and> fst (get_context (tbl(b := e)) a) = fst (get_context tbl a)
   \<and> fst (clear_user_context (tbl(b := e)) a) = fst (clear_user_context tbl a)
   \<and> snd (get_context (tbl(b := e)) a) a = snd (get_context tbl a) a
   \<and> add_to_context (tbl(b := e)) a r c a = add_to_context tbl a r c a
   \<and> snd (clear_user_context (tbl(b := e)) a) a = snd (clear_user_context tbl a) a"
  by (auto simp: clear_user_context_def get_context_def add_to_context_def Let_def dom_def)

theorem user_isolation_witness:
  "(1::int) \<noteq> 2
   \<and> snd (get_context [2 \<mapsto> ''x''] 1) 2 = [2 \<mapsto> ''x''] (2::int)
   \<and> add_to_context [2 \<mapsto> ''x''] 1 ''user'' ''hi'' 2 = [2 \<mapsto> ''x''] (2::int)
   \<and> snd (clear_user_context [2 \<mapsto> ''x''] 1) 2 = [2 \<mapsto> ''x''] (2::int)
   \<and> fst (get_context ([2 \<mapsto> ''x''](2 := None)) 1) = fst (get_context [2 \<mapsto> ''x''] 1)
   \<and> fst (clear_user_context ([2 \<mapsto> ''x''](2 := None)) 1)
       = fst (clear_user_context [2 \<mapsto> ''x''] 1)
   \<and> snd (get_context ([2 \<mapsto> ''x''](2 := None)) 1) 1 = snd (get_context [2 \<mapsto> ''x''] 1) 1
   \<and> add_to_context ([2 \<mapsto> ''x''](2 := None)) 1 ''user'' ''hi'' 1
       = add_to_context [2 \<mapsto> ''x''] 1 ''user'' ''hi'' 1
   \<and> snd (clear_user_context ([2 \<mapsto> ''x''](2 := None)) 1) 1
       = snd (clear_user_context [2 \<mapsto> ''x''] 1) 1"
  using user_isolation [of 1 2 "[2 \<mapsto> ''x'']" "''user''" "''hi''" None] by simp

subsection \<open>Well-formed blobs\<close>

text \<open>
  The block that \<^verbatim>\<open>add_to_context\<close> writes is a complete block for every role and content.
  When the role holds a line feed, the header line ends there and the rest of the role
  belongs to the content.
\<close>

lemma format_block_complete:
  assumes b: "well_formed b"
  shows "well_formed (b @ format_block r c)"
proof -
  define h where "h = takeWhile (\<lambda>x. x \<noteq> CHR ''\<newline>'') r"
  define t where "t = dropWhile (\<lambda>x. x \<noteq> CHR ''\<newline>'') r"
  have r: "r = h @ t" by (simp add: h_def t_def)
  have h: "CHR ''\<newline>'' \<notin> set h" unfolding h_def by (auto dest: set_takeWhileD)
  show ?thesis
  proof (cases t)
    case Nil
    then have "b @ format_block r c = b @ ''role: '' @ h @ ''\<newline>'' @ c @ ''\<newline>\<newline>''"
      by (simp add: format_block_def r)
    then show ?thesis using wf_block [OF b h, of c] by simp
  next
    case (Cons x t')
    then have "x = CHR ''\<newline>''"
      using hd_dropWhile [of "\<lambda>x. x \<noteq> CHR ''\<newline>''" r] by (simp add: t_def)
    then have "b @ format_block r c
        = b @ ''role: '' @ h @ ''\<newline>'' @ (t' @ ''\<newline>'' @ c) @ ''\<newline>\<newline>''"
      by (simp add: format_block_def r Cons)
    then show ?thesis using wf_block [OF b h, of "t' @ ''\<newline>'' @ c"] by simp
  qed
qed

lemma format_block_well_formed: "well_formed (format_block r c)"
  using format_block_complete [OF wf_empty, of r c] by simp

lemma apply_operation_well_formed:
  "(\<forall>u s. tbl u = Some s \<longrightarrow> well_formed s) \<Longrightarrow>
   apply_operation op tbl u = Some s \<Longrightarrow> well_formed s"
  by (cases op)
     (auto simp: clear_user_context_def get_context_def add_to_context_def Let_def dom_def
           intro: wf_empty format_block_complete format_block_well_formed split: if_splits)

text \<open>
  C5. The invariant of the table: when every blob of the table is well formed, then after
  any sequence of \<^verbatim>\<open>get_context\<close>, \<^verbatim>\<open>add_to_context\<close> and \<^verbatim>\<open>clear_user_context\<close> calls, with
  any role and content strings, every user id in the table is mapped to a well-formed blob,
  that is to zero or more complete blocks. The empty table of a starting process satisfies
  the hypothesis.
\<close>

theorem well_formed_invariant:
  "(\<forall>u s. tbl u = Some s \<longrightarrow> well_formed s) \<Longrightarrow>
   run ops tbl uid = Some s \<Longrightarrow> well_formed s"
proof (induction ops arbitrary: tbl uid s)
  case Nil
  then show ?case by (simp add: run_def)
next
  case (Cons op ops)
  have "\<forall>u s. apply_operation op tbl u = Some s \<longrightarrow> well_formed s"
    using apply_operation_well_formed [OF Cons.prems(1)] by blast
  from Cons.IH [OF this] Cons.prems(2) show ?case by (simp add: run_def)
qed

theorem well_formed_invariant_witness:
  "run [Get 7, Add 42 ''user'' ''Hello'', Clear 7, Add 42 ''assistant'' ''Hi there'']
         Map.empty 42
       = Some ''role: user\<newline>Hello\<newline>\<newline>role: assistant\<newline>Hi there\<newline>\<newline>''
   \<and> well_formed ''role: user\<newline>Hello\<newline>\<newline>role: assistant\<newline>Hi there\<newline>\<newline>''"
proof -
  have a: "\<forall>u s. (Map.empty :: user_contexts) u = Some s \<longrightarrow> well_formed s" by simp
  have b: "run [Get 7, Add 42 ''user'' ''Hello'', Clear 7, Add 42 ''assistant'' ''Hi there'']
             Map.empty 42
       = Some ''role: user\<newline>Hello\<newline>\<newline>role: assistant\<newline>Hi there\<newline>\<newline>''"
    by (simp add: run_def clear_user_context_def get_context_def add_to_context_def Let_def
        format_block_def)
  show ?thesis using a b well_formed_invariant [OF a b] by blast
qed

section \<open>The transcript parser\<close>

subsection \<open>The loop as a filter over the blocks\<close>

lemma parse_blocks_map_filter:
  "parse_blocks blocks messages = messages @ List.map_filter parse_block blocks"
  by (induction blocks arbitrary: messages) (auto simp: map_filter_simps split: option.splits)

lemma parse_block_Nil: "parse_block [] = None"
  by (simp add: parse_block_def strip_def)

lemma parse_as_map_filter:
  "parse_context_to_messages s = List.map_filter parse_block (split ''\<newline>\<newline>'' (strip s))"
  by (simp add: parse_context_to_messages_def parse_blocks_map_filter map_filter_simps
      parse_block_Nil)

lemma in_map_filter: "m \<in> set (List.map_filter f xs) \<Longrightarrow> \<exists>x \<in> set xs. f x = Some m"
  by (induction xs) (auto simp: map_filter_simps split: option.splits)

subsection \<open>Splitting and stripping\<close>

lemma partition_first_Some:
  "partition_first [x] s = Some (a, b) \<Longrightarrow> s = a @ x # b \<and> x \<notin> set a"
  by (induction s arbitrary: a b) (auto split: if_splits option.splits)

lemma partition_first_None: "x \<notin> set s \<Longrightarrow> partition_first [x] s = None"
  by (induction s) auto

lemma partition_first_at: "x \<notin> set a \<Longrightarrow> partition_first [x] (a @ x # b) = Some (a, b)"
  by (induction a) auto

lemma isspace_newline: "isspace (CHR ''\<newline>'')"
  by (simp add: isspace_def)

lemma strip_last: "strip s \<noteq> [] \<Longrightarrow> \<not> isspace (last (strip s))"
  unfolding strip_def using hd_dropWhile [of isspace "rev (dropWhile isspace s)"]
  by (simp add: last_rev)

lemma strip_keep:
  assumes "s \<noteq> []" "\<not> isspace (hd s)" "\<not> isspace (last s)" "\<forall>x \<in> set w. isspace x"
  shows "strip (s @ w) = s"
proof -
  from assms(1,2) have 1: "dropWhile isspace (s @ w) = s @ w" by (cases s) auto
  have 2: "dropWhile isspace (rev w @ rev s) = dropWhile isspace (rev s)"
    using assms(4) by (intro dropWhile_append2) simp
  from assms(1,3) have 3: "dropWhile isspace (rev s) = rev s"
    by (cases "rev s") (auto simp: last_rev [symmetric] simp del: last_rev)
  show ?thesis by (simp add: strip_def 1 2 3)
qed

lemma split_no_sep: "\<not> sublist ''\<newline>\<newline>'' x \<Longrightarrow> split ''\<newline>\<newline>'' x = [x]"
  by (induction x) (auto simp: sublist_Cons_right)

lemma split_at_sep:
  "\<not> sublist ''\<newline>\<newline>'' x \<Longrightarrow> x = [] \<or> last x \<noteq> CHR ''\<newline>'' \<Longrightarrow>
   split ''\<newline>\<newline>'' (x @ ''\<newline>\<newline>'' @ rest) = x # split ''\<newline>\<newline>'' rest"
proof (induction x)
  case Nil
  then show ?case by simp
next
  case (Cons a x)
  from Cons.prems have ns: "\<not> sublist ''\<newline>\<newline>'' x"
    and np: "\<not> prefix ''\<newline>\<newline>'' (a # x)"
    by (auto simp: sublist_Cons_right)
  from Cons.prems have l: "x = [] \<or> last x \<noteq> CHR ''\<newline>''" by (auto split: if_splits)
  from Cons.prems have a: "x = [] \<longrightarrow> a \<noteq> CHR ''\<newline>''" by auto
  have "\<not> prefix ''\<newline>\<newline>'' ((a # x) @ ''\<newline>\<newline>'' @ rest)"
    using np a by (cases x) auto
  then show ?case using Cons.IH [OF ns l] by simp
qed

subsection \<open>What one block yields\<close>

lemma parse_block_Some:
  assumes "parse_block b = Some m"
  shows "\<exists>h. strip b = h @ ''\<newline>'' @ content m \<and> CHR ''\<newline>'' \<notin> set h
            \<and> prefix ''role: '' h \<and> role m = strip (replace ''role: '' [] h)
            \<and> role m \<in> {''user'', ''assistant''}"
proof (cases "partition_first ''\<newline>'' (strip b)")
  case None
  with assms show ?thesis by (simp add: parse_block_def split1_def split: if_splits)
next
  case (Some p)
  obtain h c where p: "p = (h, c)" by (cases p)
  from partition_first_Some [of "CHR ''\<newline>''" "strip b" h c] Some p
  have 1: "strip b = h @ ''\<newline>'' @ c" "CHR ''\<newline>'' \<notin> set h" by auto
  from assms Some p have "prefix ''role: '' h \<and> role m = strip (replace ''role: '' [] h)
            \<and> role m \<in> {''user'', ''assistant''} \<and> content m = c"
    by (auto simp: parse_block_def split1_def startswith_def Let_def split: if_splits)
  with 1 show ?thesis by auto
qed

lemma parse_block_content:
  assumes "parse_block b = Some m"
  shows "content m \<noteq> [] \<and> \<not> isspace (last (content m))"
proof -
  from parse_block_Some [OF assms] obtain h where h: "strip b = h @ ''\<newline>'' @ content m"
    by blast
  then have ne: "strip b \<noteq> []" by simp
  from strip_last [OF ne] h isspace_newline show ?thesis by (cases "content m = []") auto
qed

lemma parse_block_header_only: "CHR ''\<newline>'' \<notin> set (strip b) \<Longrightarrow> parse_block b = None"
  by (simp add: parse_block_def split1_def partition_first_None)

lemma parse_block_no_prefix:
  "\<not> startswith (split1 ''\<newline>'' (strip b) ! 0) ''role: '' \<Longrightarrow> parse_block b = None"
  by (simp add: parse_block_def Let_def)

lemma parse_block_other_tag:
  assumes "strip (replace ''role: '' [] (split1 ''\<newline>'' (strip b) ! 0))
             \<notin> {''user'', ''assistant''}"
  shows "parse_block b = None"
proof (cases "parse_block b")
  case None
  then show ?thesis .
next
  case (Some m)
  from parse_block_Some [OF Some] obtain h where
    h: "strip b = h @ ''\<newline>'' @ content m" "CHR ''\<newline>'' \<notin> set h"
       "role m = strip (replace ''role: '' [] h)" "role m \<in> {''user'', ''assistant''}"
    by blast
  from h(1,2) have "split1 ''\<newline>'' (strip b) ! 0 = h"
    using partition_first_at [of "CHR ''\<newline>''" h "content m"] by (simp add: split1_def)
  with assms h(3,4) show ?thesis by simp
qed

subsection \<open>The blob of clean records\<close>

lemma block_text_no_sep: "clean_record p \<Longrightarrow> \<not> sublist ''\<newline>\<newline>'' (block_text p)"
proof -
  have "CHR ''\<newline>'' \<notin> set h \<Longrightarrow> c \<noteq> [] \<Longrightarrow> hd c \<noteq> CHR ''\<newline>'' \<Longrightarrow>
        \<not> sublist ''\<newline>\<newline>'' c \<Longrightarrow> \<not> sublist ''\<newline>\<newline>'' (h @ CHR ''\<newline>'' # c)" for h c
    by (induction h) (auto simp: sublist_Cons_right neq_Nil_conv)
  from this [of "''role: '' @ fst p" "snd p"] show "clean_record p \<Longrightarrow> ?thesis"
    by (auto simp: clean_record_def block_text_def)
qed

lemma block_text_last: "clean_record p \<Longrightarrow> last (block_text p) = last (snd p)"
  by (simp add: clean_record_def block_text_def)

lemma block_text_last_newline: "clean_record p \<Longrightarrow> last (block_text p) \<noteq> CHR ''\<newline>''"
  using isspace_newline by (auto simp: block_text_last clean_record_def)

lemma parse_block_block_text:
  assumes "clean_record p"
  shows "parse_block (block_text p) = Some \<lparr>role = fst p, content = snd p\<rparr>"
proof -
  have hd: "\<not> isspace (hd (block_text p))" by (simp add: block_text_def isspace_def)
  have ne: "block_text p \<noteq> []" by (simp add: block_text_def)
  have la: "\<not> isspace (last (block_text p))"
    using assms by (simp add: block_text_last clean_record_def)
  have s: "strip (block_text p) = block_text p" using strip_keep [OF ne hd la, of "[]"] by simp
  have nl: "CHR ''\<newline>'' \<notin> set (''role: '' @ fst p)" using assms by (auto simp: clean_record_def)
  have pf: "partition_first ''\<newline>'' (block_text p) = Some (''role: '' @ fst p, snd p)"
    using partition_first_at [OF nl, of "snd p"] by (simp add: block_text_def)
  have r: "strip (replace ''role: '' [] (''role: '' @ fst p)) = fst p"
    using assms by (auto simp: clean_record_def strip_def isspace_def)
  show ?thesis using assms r
    by (simp add: parse_block_def s pf split1_def startswith_def Let_def ne clean_record_def)
qed

lemma get_context_fst:
  "fst (get_context tbl uid) = (case tbl uid of None \<Rightarrow> [] | Some s \<Rightarrow> s)"
  by (auto simp: get_context_def Let_def split: option.splits)

lemma add_to_context_entry:
  "add_to_context tbl uid r c uid
     = Some ((case tbl uid of None \<Rightarrow> [] | Some s \<Rightarrow> s) @ format_block r c)"
  by (auto simp: add_to_context_def Let_def split: option.splits)

lemma fold_add_to_context:
  "fst (get_context (fold (\<lambda>p t. add_to_context t uid (fst p) (snd p)) ps tbl) uid)
     = (case tbl uid of None \<Rightarrow> [] | Some s \<Rightarrow> s)
       @ concat (map (\<lambda>p. block_text p @ ''\<newline>\<newline>'') ps)"
proof (induction ps arbitrary: tbl)
  case Nil
  then show ?case by (simp add: get_context_fst)
next
  case (Cons p ps)
  show ?case using Cons.IH [of "add_to_context tbl uid (fst p) (snd p)"]
    by (simp add: add_to_context_entry format_block_def block_text_def)
qed

lemma split_blocks:
  "\<forall>q \<in> set ps. clean_record q \<Longrightarrow> clean_record p \<Longrightarrow>
   split ''\<newline>\<newline>'' (concat (map (\<lambda>p. block_text p @ ''\<newline>\<newline>'') ps) @ block_text p)
     = map block_text ps @ [block_text p]"
proof (induction ps)
  case Nil
  then show ?case by (simp add: split_no_sep block_text_no_sep)
next
  case (Cons q ps)
  from Cons.prems have okq: "clean_record q" by simp
  have "split ''\<newline>\<newline>'' (block_text q @ ''\<newline>\<newline>''
            @ (concat (map (\<lambda>p. block_text p @ ''\<newline>\<newline>'') ps) @ block_text p))
      = block_text q
        # split ''\<newline>\<newline>'' (concat (map (\<lambda>p. block_text p @ ''\<newline>\<newline>'') ps) @ block_text p)"
    using split_at_sep [OF block_text_no_sep [OF okq]] block_text_last_newline [OF okq] by blast
  then show ?case using Cons by simp
qed

lemma map_filter_block_texts:
  "\<forall>q \<in> set ps. clean_record q \<Longrightarrow>
   List.map_filter parse_block (map block_text ps)
     = map (\<lambda>p. \<lparr>role = fst p, content = snd p\<rparr>) ps"
  by (induction ps) (simp_all add: map_filter_simps parse_block_block_text)

lemma strip_blob:
  assumes "\<forall>q \<in> set ps. clean_record q" "clean_record p"
  shows "strip (concat (map (\<lambda>p. block_text p @ ''\<newline>\<newline>'') (ps @ [p])))
      = concat (map (\<lambda>p. block_text p @ ''\<newline>\<newline>'') ps) @ block_text p"
proof -
  let ?X = "concat (map (\<lambda>p. block_text p @ ''\<newline>\<newline>'') ps) @ block_text p"
  have ne: "?X \<noteq> []" by (simp add: block_text_def)
  have la: "\<not> isspace (last ?X)" using assms(2) by (simp add: block_text_def clean_record_def)
  have "hd ?X = CHR ''r''" by (cases ps) (simp_all add: block_text_def)
  then have hd: "\<not> isspace (hd ?X)" by (simp add: isspace_def)
  have sp: "\<forall>x \<in> set ''\<newline>\<newline>''. isspace x" by (simp add: isspace_def)
  have "concat (map (\<lambda>p. block_text p @ ''\<newline>\<newline>'') (ps @ [p])) = ?X @ ''\<newline>\<newline>''" by simp
  then show ?thesis using strip_keep [OF ne hd la sp] by simp
qed

lemma parse_blob:
  assumes "\<forall>q \<in> set ps. clean_record q"
  shows "parse_context_to_messages (concat (map (\<lambda>p. block_text p @ ''\<newline>\<newline>'') ps))
      = map (\<lambda>p. \<lparr>role = fst p, content = snd p\<rparr>) ps"
proof (cases ps rule: rev_cases)
  case Nil
  then show ?thesis by (simp add: parse_context_to_messages_def strip_def)
next
  case (snoc qs p)
  with assms have ok: "\<forall>q \<in> set qs. clean_record q" "clean_record p" by auto
  have "List.map_filter parse_block (map block_text ps)
      = map (\<lambda>p. \<lparr>role = fst p, content = snd p\<rparr>) ps"
    using map_filter_block_texts [OF assms] .
  then show ?thesis
    using strip_blob [OF ok] split_blocks [OF ok]
    by (simp only: snoc parse_as_map_filter map_append list.map)
qed

subsection \<open>The claims on the parser\<close>

text \<open>
  C1, as amended. For every finite sequence of (role, content) pairs whose role is
  \<^verbatim>\<open>"user"\<close> or \<^verbatim>\<open>"assistant"\<close> and whose content is not empty, holds no two-newline block
  separator, does not begin with a line feed and does not end with a whitespace character,
  calling \<^verbatim>\<open>add_to_context\<close> for each pair in order on a user id that is not in the table and
  then applying \<^verbatim>\<open>parse_context_to_messages\<close> to \<^verbatim>\<open>get_context\<close> of that id yields exactly
  that sequence of records, in the same order.
\<close>

theorem round_trip:
  assumes "tbl uid = None"
    and "\<forall>(r, c) \<in> set ps. r \<in> {''user'', ''assistant''} \<and> c \<noteq> [] \<and> \<not> sublist ''\<newline>\<newline>'' c
            \<and> hd c \<noteq> CHR ''\<newline>'' \<and> \<not> isspace (last c)"
  shows "parse_context_to_messages
           (fst (get_context (fold (\<lambda>(r, c) t. add_to_context t uid r c) ps tbl) uid))
         = map (\<lambda>(r, c). \<lparr>role = r, content = c\<rparr>) ps"
proof -
  have 1: "(\<lambda>(r, c) t. add_to_context t uid r c) = (\<lambda>p t. add_to_context t uid (fst p) (snd p))"
    by (simp add: fun_eq_iff)
  have 2: "(\<lambda>(r, c). \<lparr>role = r, content = c\<rparr>) = (\<lambda>p. \<lparr>role = fst p, content = snd p\<rparr>)"
    by (simp add: fun_eq_iff)
  from assms(2) have "\<forall>q \<in> set ps. clean_record q"
    unfolding clean_record_def by (simp add: case_prod_beta)
  from parse_blob [OF this] show ?thesis
    unfolding 1 2 fold_add_to_context assms(1) by simp
qed

theorem round_trip_witness:
  "(Map.empty :: user_contexts) 42 = None
   \<and> ''Hello'' \<noteq> [] \<and> \<not> sublist ''\<newline>\<newline>'' ''Hello''
   \<and> hd ''Hello'' \<noteq> CHR ''\<newline>'' \<and> \<not> isspace (last ''Hello'')
   \<and> ''Hi there'' \<noteq> [] \<and> \<not> sublist ''\<newline>\<newline>'' ''Hi there''
   \<and> hd ''Hi there'' \<noteq> CHR ''\<newline>'' \<and> \<not> isspace (last ''Hi there'')
   \<and> parse_context_to_messages
        (fst (get_context
           (fold (\<lambda>(r, c) t. add_to_context t 42 r c)
              [(''user'', ''Hello''), (''assistant'', ''Hi there'')] Map.empty) 42))
       = [\<lparr>role = ''user'', content = ''Hello''\<rparr>,
          \<lparr>role = ''assistant'', content = ''Hi there''\<rparr>]"
proof -
  have a: "(Map.empty :: user_contexts) 42 = None" by simp
  have b1: "''Hello'' \<noteq> [] \<and> \<not> sublist ''\<newline>\<newline>'' ''Hello''
      \<and> hd ''Hello'' \<noteq> CHR ''\<newline>'' \<and> \<not> isspace (last ''Hello'')"
    by (simp add: sublist_Cons_right isspace_def)
  have b2: "''Hi there'' \<noteq> [] \<and> \<not> sublist ''\<newline>\<newline>'' ''Hi there''
      \<and> hd ''Hi there'' \<noteq> CHR ''\<newline>'' \<and> \<not> isspace (last ''Hi there'')"
    by (simp add: sublist_Cons_right isspace_def)
  have b: "\<forall>(r, c) \<in> set [(''user'', ''Hello''), (''assistant'', ''Hi there'')].
        r \<in> {''user'', ''assistant''} \<and> c \<noteq> [] \<and> \<not> sublist ''\<newline>\<newline>'' c
            \<and> hd c \<noteq> CHR ''\<newline>'' \<and> \<not> isspace (last c)"
    using b1 b2 by simp
  have c: "map (\<lambda>(r, c). \<lparr>role = r, content = c\<rparr>)
             [(''user'', ''Hello''), (''assistant'', ''Hi there'')]
     = [\<lparr>role = ''user'', content = ''Hello''\<rparr>,
        \<lparr>role = ''assistant'', content = ''Hi there''\<rparr>]" by simp
  show ?thesis using a b1 b2 round_trip [OF a b] unfolding c by blast
qed

text \<open>
  Without the two added conditions the round trip fails: the content \<^verbatim>\<open>"Hello "\<close> is not
  empty and holds no block separator, and it is read back as \<^verbatim>\<open>"Hello"\<close>, since every block
  is stripped before its header is split off.
\<close>

theorem round_trip_counterexample:
  "''Hello '' \<noteq> [] \<and> \<not> sublist ''\<newline>\<newline>'' ''Hello ''
   \<and> parse_context_to_messages
         (fst (get_context (add_to_context Map.empty 42 ''user'' ''Hello '') 42))
       = [\<lparr>role = ''user'', content = ''Hello''\<rparr>]
   \<and> parse_context_to_messages
         (fst (get_context (add_to_context Map.empty 42 ''user'' ''Hello '') 42))
       \<noteq> [\<lparr>role = ''user'', content = ''Hello ''\<rparr>]"
proof -
  have 1: "fst (get_context (add_to_context Map.empty 42 ''user'' ''Hello '') 42)
      = ''role: user\<newline>Hello \<newline>\<newline>''"
    by (simp add: get_context_def add_to_context_def format_block_def)
  have 2: "parse_context_to_messages ''role: user\<newline>Hello \<newline>\<newline>''
      = [\<lparr>role = ''user'', content = ''Hello''\<rparr>]"
    by code_simp
  have 3: "\<not> sublist ''\<newline>\<newline>'' ''Hello ''" by (simp add: sublist_Cons_right)
  show ?thesis unfolding 1 2 using 3 by simp
qed

text \<open>
  C2. The claim is that the role tag is the rest of the header line after the prefix
  \<^verbatim>\<open>"role: "\<close>, removed once from the front, and then trimmed, so that the header
  \<^verbatim>\<open>"role: role: user"\<close> has the tag \<^verbatim>\<open>"role: user"\<close>. The source removes the prefix with
  \<^verbatim>\<open>role_line.replace("role: ", "")\<close>, which removes every occurrence: for that header the tag
  it computes is \<^verbatim>\<open>"user"\<close>, and the block is emitted as a user message, where the tag of
  the claim would have it filtered out.
\<close>

theorem role_tag_replaces_every_prefix:
  "startswith ''role: role: user'' ''role: ''
   \<and> strip (drop (length ''role: '') ''role: role: user'') = ''role: user''
   \<and> strip (replace ''role: '' [] ''role: role: user'') = ''user''
   \<and> parse_context_to_messages ''role: role: user\<newline>hi\<newline>\<newline>''
       = [\<lparr>role = ''user'', content = ''hi''\<rparr>]"
  by code_simp

text \<open>
  C3, as amended. The records that \<^verbatim>\<open>parse_context_to_messages\<close> emits are, in block order,
  the records that the blocks yield, the blocks being the pieces of the stripped blob between
  block separators. For every block \<open>b\<close> that yields a record \<open>m\<close>, the content of \<open>m\<close> is the
  remainder of that same block after its first line feed, taken once \<open>b\<close> has been stripped
  of the whitespace at its two ends: the stripped block is the header line \<open>h\<close>, a line feed
  and the content. Line feeds inside the remainder and the whitespace at its front are kept;
  the whitespace at the end of the block is not part of the content.
\<close>

theorem content_is_stripped_remainder:
  "parse_context_to_messages s = List.map_filter parse_block (split ''\<newline>\<newline>'' (strip s))
   \<and> (parse_block b = Some m \<longrightarrow>
        (\<exists>h. CHR ''\<newline>'' \<notin> set h \<and> strip b = h @ ''\<newline>'' @ content m
             \<and> split1 ''\<newline>'' (strip b) = [h, content m]))"
proof -
  have "\<exists>h. CHR ''\<newline>'' \<notin> set h \<and> strip b = h @ ''\<newline>'' @ content m
             \<and> split1 ''\<newline>'' (strip b) = [h, content m]" if "parse_block b = Some m"
  proof -
    from parse_block_Some [OF that] obtain h where
      h: "strip b = h @ ''\<newline>'' @ content m" "CHR ''\<newline>'' \<notin> set h" by blast
    then have "split1 ''\<newline>'' (strip b) = [h, content m]"
      using partition_first_at [of "CHR ''\<newline>''" h "content m"] by (simp add: split1_def)
    with h show ?thesis by blast
  qed
  then show ?thesis using parse_as_map_filter [of s] by blast
qed

theorem content_is_stripped_remainder_witness:
  "parse_block ''\<newline> role: user\<newline>  a\<newline> \<newline> b  '' = Some \<lparr>role = ''user'', content = ''  a\<newline> \<newline> b''\<rparr>
   \<and> (\<exists>h. CHR ''\<newline>'' \<notin> set h
         \<and> strip ''\<newline> role: user\<newline>  a\<newline> \<newline> b  ''
             = h @ ''\<newline>'' @ content \<lparr>role = ''user'', content = ''  a\<newline> \<newline> b''\<rparr>
         \<and> split1 ''\<newline>'' (strip ''\<newline> role: user\<newline>  a\<newline> \<newline> b  '')
             = [h, content \<lparr>role = ''user'', content = ''  a\<newline> \<newline> b''\<rparr>])
   \<and> split ''\<newline>\<newline>'' (strip ''x\<newline>\<newline>\<newline> role: user\<newline>  a\<newline> \<newline> b  \<newline>\<newline>'')
       = [''x'', ''\<newline> role: user\<newline>  a\<newline> \<newline> b'']
   \<and> parse_context_to_messages ''x\<newline>\<newline>\<newline> role: user\<newline>  a\<newline> \<newline> b  \<newline>\<newline>''
       = List.map_filter parse_block
           (split ''\<newline>\<newline>'' (strip ''x\<newline>\<newline>\<newline> role: user\<newline>  a\<newline> \<newline> b  \<newline>\<newline>''))
   \<and> parse_context_to_messages ''x\<newline>\<newline>\<newline> role: user\<newline>  a\<newline> \<newline> b  \<newline>\<newline>''
       = [\<lparr>role = ''user'', content = ''  a\<newline> \<newline> b''\<rparr>]"
proof -
  have a: "parse_block ''\<newline> role: user\<newline>  a\<newline> \<newline> b  ''
      = Some \<lparr>role = ''user'', content = ''  a\<newline> \<newline> b''\<rparr>"
    by code_simp
  have b: "split ''\<newline>\<newline>'' (strip ''x\<newline>\<newline>\<newline> role: user\<newline>  a\<newline> \<newline> b  \<newline>\<newline>'')
       = [''x'', ''\<newline> role: user\<newline>  a\<newline> \<newline> b'']"
    by code_simp
  have c: "parse_context_to_messages ''x\<newline>\<newline>\<newline> role: user\<newline>  a\<newline> \<newline> b  \<newline>\<newline>''
       = [\<lparr>role = ''user'', content = ''  a\<newline> \<newline> b''\<rparr>]"
    by code_simp
  show ?thesis
    using a b c
      content_is_stripped_remainder [of
        "''x\<newline>\<newline>\<newline> role: user\<newline>  a\<newline> \<newline> b  \<newline>\<newline>''"
        "''\<newline> role: user\<newline>  a\<newline> \<newline> b  ''"
        "\<lparr>role = ''user'', content = ''  a\<newline> \<newline> b''\<rparr>"]
    by blast
qed

text \<open>
  The content is not the verbatim remainder of the block: for the blob
  \<^verbatim>\<open>"role: user\nhi  \n\n"\<close> the block before the separator is \<^verbatim>\<open>"role: user\nhi  "\<close>, its
  remainder after the first line feed is \<^verbatim>\<open>"hi  "\<close>, and the content emitted is \<^verbatim>\<open>"hi"\<close>.
\<close>

theorem content_verbatim_counterexample:
  "split ''\<newline>\<newline>'' ''role: user\<newline>hi  \<newline>\<newline>'' = [''role: user\<newline>hi  '', '''']
   \<and> split1 ''\<newline>'' ''role: user\<newline>hi  '' = [''role: user'', ''hi  '']
   \<and> map content (parse_context_to_messages ''role: user\<newline>hi  \<newline>\<newline>'') = [''hi'']
   \<and> ''hi'' \<noteq> ''hi  ''"
  by code_simp

text \<open>
  C6. The claim is that a block whose role tag is not exactly \<^verbatim>\<open>"user"\<close> or \<^verbatim>\<open>"assistant"\<close>
  is left out of the output. The tag of a header line is what follows its prefix
  \<^verbatim>\<open>"role: "\<close>, trimmed; for the header \<^verbatim>\<open>"role: role: assistant"\<close> it is \<^verbatim>\<open>"role: assistant"\<close>,
  which is neither of the two. The source computes the tag with
  \<^verbatim>\<open>role_line.replace("role: ", "")\<close>, gets \<^verbatim>\<open>"assistant"\<close>, and emits the block.
\<close>

theorem filtering_repeated_prefix:
  "startswith ''role: role: assistant'' ''role: ''
   \<and> strip (drop (length ''role: '') ''role: role: assistant'') = ''role: assistant''
   \<and> ''role: assistant'' \<notin> {''user'', ''assistant''}
   \<and> parse_block ''role: role: assistant\<newline>hello''
       = Some \<lparr>role = ''assistant'', content = ''hello''\<rparr>
   \<and> parse_context_to_messages ''role: user\<newline>hi\<newline>\<newline>role: role: assistant\<newline>hello\<newline>\<newline>''
       = [\<lparr>role = ''user'', content = ''hi''\<rparr>, \<lparr>role = ''assistant'', content = ''hello''\<rparr>]"
  by code_simp

text \<open>
  C10. For every input string, every record that \<^verbatim>\<open>parse_context_to_messages\<close> emits has a
  content without trailing whitespace: the content is not empty and its last character is
  not a whitespace character.
\<close>

theorem content_no_trailing_whitespace:
  "m \<in> set (parse_context_to_messages s) \<Longrightarrow>
   content m \<noteq> [] \<and> \<not> isspace (last (content m))"
  using in_map_filter [of m parse_block] parse_block_content
  by (auto simp: parse_as_map_filter)

theorem content_no_trailing_whitespace_witness:
  "\<lparr>role = ''user'', content = ''hi''\<rparr>
      \<in> set (parse_context_to_messages ''role: user\<newline>hi \<newline>\<newline>'')
   \<and> content \<lparr>role = ''user'', content = ''hi''\<rparr> \<noteq> []
   \<and> \<not> isspace (last (content \<lparr>role = ''user'', content = ''hi''\<rparr>))"
proof -
  have a: "\<lparr>role = ''user'', content = ''hi''\<rparr>
      \<in> set (parse_context_to_messages ''role: user\<newline>hi \<newline>\<newline>'')"
    by code_simp
  show ?thesis using a content_no_trailing_whitespace [OF a] by blast
qed

end
